theory Spec2Isabelle
  imports Main "HOL-Library.Multiset"
begin

section \<open>Strings and paths\<close>

text \<open>
  Go strings are byte sequences; they are modelled as \<open>string\<close> (a list of \<open>char\<close>).
  The program uses three library functions on them: \<open>strings.Split\<close> (always with a
  one-byte separator, \<open>"@"\<close> or \<open>":"\<close>), \<open>filepath.Join\<close> and, through it,
  \<open>filepath.Clean\<close>. They are modelled as documented for a Unix target, where the path
  separator is \<open>/\<close>.
\<close>

fun strings_Split :: "string \<Rightarrow> char \<Rightarrow> string list" where
  "strings_Split [] sep = [[]]"
| "strings_Split (x # xs) sep =
     (if x = sep then [] # strings_Split xs sep
      else (case strings_Split xs sep of
              [] \<Rightarrow> [[x]]
            | y # ys \<Rightarrow> (x # y) # ys))"

fun strings_Join :: "string list \<Rightarrow> string \<Rightarrow> string" where
  "strings_Join [] sep = []"
| "strings_Join [x] sep = x"
| "strings_Join (x # y # ys) sep = x @ sep @ strings_Join (y # ys) sep"

text \<open>
  \<open>filepath.Clean\<close>: empty and \<open>.\<close> elements are dropped, an inner \<open>..\<close> removes the
  element before it, a \<open>..\<close> at the start of a rooted path is dropped, and the empty result
  is written \<open>.\<close> (or \<open>/\<close> when rooted).
\<close>

definition clean_step :: "bool \<Rightarrow> string list \<Rightarrow> string \<Rightarrow> string list" where
  "clean_step rooted out c =
     (if c = [] \<or> c = ''.'' then out
      else if c = ''..'' then
        (if out \<noteq> [] \<and> last out \<noteq> ''..'' then butlast out
         else if rooted then out
         else out @ [c])
      else out @ [c])"

definition is_rooted :: "string \<Rightarrow> bool" where
  "is_rooted p = (case p of [] \<Rightarrow> False | x # _ \<Rightarrow> x = CHR ''/'')"

definition render_path :: "bool \<Rightarrow> string list \<Rightarrow> string" where
  "render_path rooted out =
     (let s = strings_Join out ''/''
      in if rooted then CHR ''/'' # s else if s = [] then ''.'' else s)"

definition filepath_Clean :: "string \<Rightarrow> string" where
  "filepath_Clean p =
     render_path (is_rooted p)
       (foldl (clean_step (is_rooted p)) [] (strings_Split p (CHR ''/'')))"

text \<open>
  \<open>filepath.Join\<close>: leading empty elements are skipped; what is left is joined with
  \<open>/\<close> and cleaned; when every element is empty the result is the empty string.
\<close>

definition filepath_Join :: "string list \<Rightarrow> string" where
  "filepath_Join elem =
     (case dropWhile (\<lambda>e. e = []) elem of
        [] \<Rightarrow> []
      | e # es \<Rightarrow> filepath_Clean (strings_Join (e # es) ''/''))"

text \<open>
  A simple name is one path element that \<open>filepath.Clean\<close> leaves alone; a plain name is
  a relative path made of simple names, such as \<open>a\<close> or \<open>org/a\<close>.
\<close>

definition simple_name :: "string \<Rightarrow> bool" where
  "simple_name n = (n \<noteq> [] \<and> n \<noteq> ''.'' \<and> n \<noteq> ''..'' \<and> CHR ''/'' \<notin> set n)"

definition plain_name :: "string \<Rightarrow> bool" where
  "plain_name n = list_all simple_name (strings_Split n (CHR ''/''))"

text \<open>
  Indexing a Go slice panics when the index is out of range; the panic is a value here.
\<close>

datatype runtime_error = IndexOutOfRange nat nat

definition index :: "'a list \<Rightarrow> nat \<Rightarrow> runtime_error + 'a" where
  "index xs i = (if i < length xs then Inr (xs ! i) else Inl (IndexOutOfRange i (length xs)))"

section \<open>Repository descriptors\<close>

record repo =
  root :: string
  name :: string
  source :: string
  destination :: string

record RepoMap =
  Name :: string
  ADO :: string
  BitBucket :: string

text \<open>The loop of \<open>main\<close> that builds the descriptors from the parsed configuration.\<close>

definition newRepo :: "string \<Rightarrow> RepoMap \<Rightarrow> repo" where
  "newRepo cacheDir r =
     \<lparr>root = filepath_Join [cacheDir, Name r],
      name = Name r,
      source = ADO r,
      destination = BitBucket r\<rparr>"

definition build_repos :: "string \<Rightarrow> RepoMap list \<Rightarrow> repo list" where
  "build_repos cacheDir rs = map (newRepo cacheDir) rs"

section \<open>The outside world\<close>

text \<open>
  Every call that leaves the program (the file system, a child process, the logger, the
  timeout context) is recorded in a trace together with the error it returned. The errors
  come from the environment: \<open>respond w n\<close> is the answer to the \<open>n\<close>-th fallible call,
  \<open>None\<close> for success and \<open>Some e\<close> for an error whose text is \<open>e\<close>.
\<close>

record cmd =
  Ctx :: nat
  Args :: "string list"
  Dir :: string

datatype event =
    Stat string "string option"
  | RemoveAll string "string option"
  | MkdirAll string nat "string option"
  | WriteFile string string nat "string option"
  | Start cmd "string option"
  | Wait cmd "string option"
  | Log string
  | WithTimeout nat
  | Cancel

record world =
  respond :: "nat \<Rightarrow> string option"
  calls :: nat
  trace :: "event list"

definition emit :: "event \<Rightarrow> world \<Rightarrow> world" where
  "emit e w = w\<lparr>trace := trace w @ [e]\<rparr>"

definition ask :: "world \<Rightarrow> string option \<times> world" where
  "ask w = (respond w (calls w), w\<lparr>calls := Suc (calls w)\<rparr>)"

definition os_Stat :: "string \<Rightarrow> world \<Rightarrow> string option \<times> world" where
  "os_Stat p w = (let (err, w1) = ask w in (err, emit (Stat p err) w1))"

definition os_RemoveAll :: "string \<Rightarrow> world \<Rightarrow> string option \<times> world" where
  "os_RemoveAll p w = (let (err, w1) = ask w in (err, emit (RemoveAll p err) w1))"

definition os_MkdirAll :: "string \<Rightarrow> nat \<Rightarrow> world \<Rightarrow> string option \<times> world" where
  "os_MkdirAll p perm w = (let (err, w1) = ask w in (err, emit (MkdirAll p perm err) w1))"

definition ioutil_WriteFile :: "string \<Rightarrow> string \<Rightarrow> nat \<Rightarrow> world \<Rightarrow> string option \<times> world" where
  "ioutil_WriteFile p content perm w =
     (let (err, w1) = ask w in (err, emit (WriteFile p content perm err) w1))"

definition log_Printf :: "string \<Rightarrow> world \<Rightarrow> world" where
  "log_Printf s w = emit (Log s) w"

text \<open>Durations are counted in seconds.\<close>

definition context_WithTimeout :: "nat \<Rightarrow> world \<Rightarrow> nat \<times> world" where
  "context_WithTimeout d w = (d, emit (WithTimeout d) w)"

definition cancel :: "world \<Rightarrow> world" where
  "cancel w = emit Cancel w"

definition exec_CommandContext :: "nat \<Rightarrow> string \<Rightarrow> string list \<Rightarrow> cmd" where
  "exec_CommandContext c prog arg = \<lparr>Ctx = c, Args = prog # arg, Dir = []\<rparr>"

text \<open>
  \<open>cmd.Start\<close> asks the environment. \<open>cmd.Wait\<close> on a command that did not start
  returns the library's own error; otherwise the environment answers, with an error for a
  non-zero exit status and for a child killed when the context expired.
\<close>

definition cmd_Start :: "cmd \<Rightarrow> world \<Rightarrow> string option \<times> world" where
  "cmd_Start c w = (let (err, w1) = ask w in (err, emit (Start c err) w1))"

definition cmd_Wait :: "cmd \<Rightarrow> bool \<Rightarrow> world \<Rightarrow> string option \<times> world" where
  "cmd_Wait c started w =
     (if \<not> started then
        (Some ''exec: not started'', emit (Wait c (Some ''exec: not started'')) w)
      else (let (err, w1) = ask w in (err, emit (Wait c err) w1)))"

section \<open>Subprocess stages\<close>

datatype completion = Returned | Panicked runtime_error

text \<open>\<open>clone\<close>: a failed start is logged and the command is waited for all the same.\<close>

definition clone :: "repo \<Rightarrow> world \<Rightarrow> world" where
  "clone r w =
     (let (ctx, w) = context_WithTimeout 30 w;
          w = log_Printf (''cloning repo: '' @ name r @ '', root: '' @ root r) w;
          c = exec_CommandContext ctx ''git'' [''clone'', ''--mirror'', source r, root r];
          (err, w) = cmd_Start c w;
          w = (case err of
                 Some e \<Rightarrow>
                   log_Printf (''error starting git clone on repo: '' @ name r @ '', err: '' @ e) w
               | None \<Rightarrow> w);
          (err2, w) = cmd_Wait c (err = None) w;
          w = (case err2 of
                 Some e \<Rightarrow>
                   log_Printf (''error waiting git clone on repo: '' @ name r @ '', err: '' @ e) w
               | None \<Rightarrow> w)
      in cancel w)"

text \<open>\<open>fetch\<close> returns its error, and returns early when the command does not start.\<close>

definition fetch :: "repo \<Rightarrow> world \<Rightarrow> string option \<times> world" where
  "fetch r w =
     (let (ctx, w) = context_WithTimeout 30 w;
          w = log_Printf (''fetching repo: '' @ name r @ '', root: '' @ root r) w;
          c = (exec_CommandContext ctx ''git'' [''fetch'', ''--prune'', ''origin''])\<lparr>Dir := root r\<rparr>;
          (err, w) = cmd_Start c w
      in case err of
           Some e \<Rightarrow>
             (Some e,
              cancel (log_Printf
                (''error starting git fetch on repo: '' @ name r @ '', err: '' @ e) w))
         | None \<Rightarrow>
             (let (err2, w) = cmd_Wait c True w
              in case err2 of
                   Some e \<Rightarrow>
                     (Some e,
                      cancel (log_Printf
                        (''error waiting git fetch on repo: '' @ name r @ '', err: '' @ e) w))
                 | None \<Rightarrow> (None, cancel w)))"

text \<open>
  \<open>addRemote\<close>: when the \<open>remotes\<close> directory cannot be made the function returns
  without a word; otherwise the file name is taken from the destination, by an index into
  the result of \<open>strings.Split\<close> that panics when the slice is too short. The error of
  \<open>ioutil.WriteFile\<close> is dropped. The permission bits \<open>0777\<close> are 511.
\<close>

definition remote_text :: "repo \<Rightarrow> string" where
  "remote_text r =
     ''URL: '' @ destination r @ [CHR 0x0A] @
     ''Push: +refs/heads/*:refs/heads/*'' @ [CHR 0x0A] @
     ''Push: +refs/tags/*:refs/tags/*'' @ [CHR 0x0A]"

definition remote_name :: "repo \<Rightarrow> runtime_error + string" where
  "remote_name r =
     (case index (strings_Split (destination r) (CHR ''@'')) 1 of
        Inl p \<Rightarrow> Inl p
      | Inr s \<Rightarrow> index (strings_Split s (CHR '':'')) 0)"

definition addRemote :: "repo \<Rightarrow> world \<Rightarrow> completion \<times> world" where
  "addRemote r w =
     (let (err, w) = os_MkdirAll (filepath_Join [root r, ''remotes'']) 511 w
      in if err \<noteq> None then (Returned, w)
         else (let remote = remote_text r
               in case remote_name r of
                    Inl p \<Rightarrow> (Panicked p, w)
                  | Inr nm \<Rightarrow>
                      (let (err2, w) =
                             ioutil_WriteFile (filepath_Join [root r, ''remotes'', nm]) remote 511 w
                       in (Returned, w))))"

text \<open>
  \<open>push\<close>: the remote name is computed after the context is made, so the deferred
  \<open>cancel\<close> runs when the index panics.
\<close>

definition push :: "repo \<Rightarrow> world \<Rightarrow> completion \<times> world" where
  "push r w =
     (let (ctx, w) = context_WithTimeout 30 w
      in case remote_name r of
           Inl p \<Rightarrow> (Panicked p, cancel w)
         | Inr nm \<Rightarrow>
             (let w = log_Printf (''pushing repo: '' @ name r @ '', root: '' @ root r) w;
                  c = (exec_CommandContext ctx ''git'' [''push'', ''--mirror'', ''--force'', nm])
                        \<lparr>Dir := root r\<rparr>;
                  (err, w) = cmd_Start c w;
                  w = (case err of
                         Some e \<Rightarrow>
                           log_Printf
                             (''error starting git push on repo: '' @ name r @ '', err: '' @ e) w
                       | None \<Rightarrow> w);
                  (err2, w) = cmd_Wait c (err = None) w;
                  w = (case err2 of
                         Some e \<Rightarrow>
                           log_Printf
                             (''error waiting git push on repo: '' @ name r @ '', err: '' @ e) w
                       | None \<Rightarrow> w)
              in (Returned, cancel w)))"

section \<open>The procedure a worker runs for one repository\<close>

text \<open>
  The first half of the loop body in \<open>initRepos\<close>: the reuse decision. The variable
  \<open>err\<close> tested after the probe fetch is the one assigned by \<open>os.Stat\<close>; the value
  returned by \<open>fetch\<close> is not assigned to anything.
\<close>

definition reuse_check :: "repo \<Rightarrow> world \<Rightarrow> bool \<times> world" where
  "reuse_check r w =
     (let canReuse = True;
          (err, w) = os_Stat (filepath_Join [root r, ''FETCH_HEAD'']) w;
          (canReuse, w) =
            (if err \<noteq> None
             then (False, log_Printf (''can't resuse repo: '' @ root r) w)
             else (canReuse, w))
      in if canReuse then
           (let w = log_Printf (''trying to resuse repo: '' @ root r) w;
                (probe, w) = fetch r w
            in if err \<noteq> None
               then (False, log_Printf (''failed to resuse repo: '' @ root r) w)
               else (canReuse, w))
         else (canReuse, w))"

text \<open>
  The whole loop body. \<open>flagMirror\<close> is the command-line flag \<open>-mirror\<close>. A panic ends
  the body where it happens (and, in Go, the program).
\<close>

definition worker_body :: "bool \<Rightarrow> repo \<Rightarrow> world \<Rightarrow> completion \<times> world" where
  "worker_body flagMirror r w =
     (let (canReuse, w) = reuse_check r w;
          w = (if \<not> canReuse
               then (let (rmerr, w) = os_RemoveAll (root r) w in clone r w)
               else w);
          (ferr, w) = fetch r w
      in if flagMirror then
           (case addRemote r w of
              (Panicked p, w) \<Rightarrow> (Panicked p, w)
            | (Returned, w) \<Rightarrow> push r w)
         else (Returned, w))"


section \<open>The dispatcher\<close>

text \<open>
  \<open>initRepos\<close> starts \<open>max = 5\<close> goroutines that receive from one unbuffered
  channel, sends every descriptor of \<open>m.repos\<close> on it, closes it and returns. One state
  of that system holds the descriptors not yet sent, whether \<open>initRepos\<close> has closed
  the channel and returned, what each worker is doing, and the descriptors whose loop body
  has run to its end. A schedule is a list of actions; an action that is not enabled in a
  state has no successor. The loop body is one step here: what it does is
  \<open>worker_body\<close>.
\<close>

datatype worker = Receiving | Running repo | Exited

record pool =
  pending :: "repo list"
  returned :: bool
  workers :: "worker list"
  completed :: "repo list"

datatype action = Handoff nat | Finish nat | Close | Exit nat

definition initRepos_start :: "repo list \<Rightarrow> pool" where
  "initRepos_start rs =
     \<lparr>pending = rs, returned = False, workers = replicate 5 Receiving, completed = []\<rparr>"

text \<open>
  \<open>Handoff i\<close>: the send \<open>c <- r\<close> meets the receive of worker \<open>i\<close>.
  \<open>Finish i\<close>: worker \<open>i\<close> reaches the end of the loop body and receives again.
  \<open>Close\<close>: the sending loop is over; \<open>close(c)\<close> and the return of \<open>initRepos\<close>.
  \<open>Exit i\<close>: worker \<open>i\<close> finds the channel closed and leaves its loop.
\<close>

fun step :: "action \<Rightarrow> pool \<Rightarrow> pool option" where
  "step (Handoff i) s =
     (case pending s of
        [] \<Rightarrow> None
      | r # rs \<Rightarrow>
          (if \<not> returned s \<and> i < length (workers s) \<and> workers s ! i = Receiving
           then Some (s\<lparr>pending := rs, workers := (workers s)[i := Running r]\<rparr>)
           else None))"
| "step (Finish i) s =
     (if i < length (workers s) then
        (case workers s ! i of
           Running r \<Rightarrow>
             Some (s\<lparr>workers := (workers s)[i := Receiving], completed := completed s @ [r]\<rparr>)
         | _ \<Rightarrow> None)
      else None)"
| "step Close s =
     (if pending s = [] \<and> \<not> returned s then Some (s\<lparr>returned := True\<rparr>) else None)"
| "step (Exit i) s =
     (if returned s \<and> i < length (workers s) \<and> workers s ! i = Receiving
      then Some (s\<lparr>workers := (workers s)[i := Exited]\<rparr>)
      else None)"

fun run :: "action list \<Rightarrow> pool \<Rightarrow> pool option" where
  "run [] s = Some s"
| "run (a # as) s = (case step a s of None \<Rightarrow> None | Some s1 \<Rightarrow> run as s1)"

definition in_flight :: "pool \<Rightarrow> repo list" where
  "in_flight s = concat (map (\<lambda>x. case x of Running r \<Rightarrow> [r] | _ \<Rightarrow> []) (workers s))"

section \<open>Reading a trace\<close>

definition new_events :: "world \<Rightarrow> world \<Rightarrow> event list" where
  "new_events w w1 = drop (length (trace w)) (trace w1)"


definition starts :: "event list \<Rightarrow> cmd list" where
  "starts es = concat (map (\<lambda>e. case e of Start c _ \<Rightarrow> [c] | _ \<Rightarrow> []) es)"

definition verb :: "cmd \<Rightarrow> string" where
  "verb c = (case Args c of _ # v # _ \<Rightarrow> v | _ \<Rightarrow> [])"

definition is_start :: "string \<Rightarrow> event \<Rightarrow> bool" where
  "is_start v e = (case e of Start c _ \<Rightarrow> verb c = v | _ \<Rightarrow> False)"

text \<open>The three commands the stages build.\<close>

definition clone_cmd :: "repo \<Rightarrow> cmd" where
  "clone_cmd r =
     \<lparr>Ctx = 30, Args = [''git'', ''clone'', ''--mirror'', source r, root r], Dir = []\<rparr>"

definition fetch_cmd :: "repo \<Rightarrow> cmd" where
  "fetch_cmd r = \<lparr>Ctx = 30, Args = [''git'', ''fetch'', ''--prune'', ''origin''], Dir = root r\<rparr>"

definition push_cmd :: "repo \<Rightarrow> string \<Rightarrow> cmd" where
  "push_cmd r nm =
     \<lparr>Ctx = 30, Args = [''git'', ''push'', ''--mirror'', ''--force'', nm], Dir = root r\<rparr>"

text \<open>
  Events of the clone-or-reuse branch that cannot belong to a later stage, and events that
  belong to the mirroring stages only.
\<close>

definition branch_event :: "event \<Rightarrow> bool" where
  "branch_event e =
     (case e of Stat _ _ \<Rightarrow> True | RemoveAll _ _ \<Rightarrow> True | _ \<Rightarrow> is_start ''clone'' e)"

definition mirror_event :: "event \<Rightarrow> bool" where
  "mirror_event e =
     (case e of MkdirAll _ _ _ \<Rightarrow> True | WriteFile _ _ _ _ \<Rightarrow> True | _ \<Rightarrow> is_start ''push'' e)"

text \<open>An event that stays inside the local mirror of \<open>r\<close> (or is no access at all).\<close>

definition local_only :: "repo \<Rightarrow> event \<Rightarrow> bool" where
  "local_only r e =
     (case e of
        Stat p _ \<Rightarrow> p = filepath_Join [root r, ''FETCH_HEAD'']
      | RemoveAll p _ \<Rightarrow> p = root r
      | MkdirAll _ _ _ \<Rightarrow> False
      | WriteFile _ _ _ _ \<Rightarrow> False
      | Start c _ \<Rightarrow> c = clone_cmd r \<or> c = fetch_cmd r
      | Wait c _ \<Rightarrow> c = clone_cmd r \<or> c = fetch_cmd r
      | Log _ \<Rightarrow> True
      | WithTimeout _ \<Rightarrow> True
      | Cancel \<Rightarrow> True)"

text \<open>
  Every failed \<open>Start\<close> and every failed \<open>Wait\<close> is followed at once by the log line
  that names the stage, the repository and the error.
\<close>

fun failures_logged :: "string \<Rightarrow> event list \<Rightarrow> bool" where
  "failures_logged nm [] = True"
| "failures_logged nm (Start c (Some e) # es) =
     ((case es of
         Log l # _ \<Rightarrow> l = ''error starting git '' @ verb c @ '' on repo: '' @ nm @ '', err: '' @ e
       | _ \<Rightarrow> False)
      \<and> failures_logged nm es)"
| "failures_logged nm (Wait c (Some e) # es) =
     ((case es of
         Log l # _ \<Rightarrow> l = ''error waiting git '' @ verb c @ '' on repo: '' @ nm @ '', err: '' @ e
       | _ \<Rightarrow> False)
      \<and> failures_logged nm es)"
| "failures_logged nm (x # es) = failures_logged nm es"

text \<open>
  A trace is scoped when every timeout context is made while none is open and lasts 30
  seconds, every command is started and waited for under the open context and carries it,
  every \<open>cancel\<close> closes the open context, and none is open at the end.
\<close>

fun scoped :: "nat option \<Rightarrow> event list \<Rightarrow> bool" where
  "scoped ctx [] = (ctx = None)"
| "scoped ctx (WithTimeout d # es) = (ctx = None \<and> d = 30 \<and> scoped (Some d) es)"
| "scoped ctx (Cancel # es) = (ctx \<noteq> None \<and> scoped None es)"
| "scoped ctx (Start c a # es) = (ctx = Some (Ctx c) \<and> scoped ctx es)"
| "scoped ctx (Wait c a # es) = (ctx = Some (Ctx c) \<and> scoped ctx es)"
| "scoped ctx (x # es) = scoped ctx es"

definition writes :: "event list \<Rightarrow> (string \<times> string) list" where
  "writes es = concat (map (\<lambda>e. case e of WriteFile p c _ _ \<Rightarrow> [(p, c)] | _ \<Rightarrow> []) es)"



text \<open>
  The commands one run of the loop body starts, given whether the marker file was found:
  the probe fetch or the clone, the fetch, and the push when mirroring is enabled and the
  destination yields a remote name.
\<close>

definition stage_cmds :: "bool \<Rightarrow> repo \<Rightarrow> bool \<Rightarrow> cmd list" where
  "stage_cmds flagMirror r found =
     (if found then fetch_cmd r else clone_cmd r) # fetch_cmd r #
     (if flagMirror
      then (case remote_name r of Inl p \<Rightarrow> [] | Inr nm \<Rightarrow> [push_cmd r nm])
      else [])"

section \<open>Example inputs\<close>

text \<open>
  The descriptor of the spec's scenario under the cache directory \<open>/cache\<close>, and a world
  in which nothing has happened yet and the environment answers by \<open>f\<close>.
\<close>

definition repo_a :: repo where
  "repo_a =
     \<lparr>root = ''/cache/a'', name = ''a'', source = ''ssh://src/a'',
      destination = ''git@bb:org/a''\<rparr>"

definition fresh_world :: "(nat \<Rightarrow> string option) \<Rightarrow> world" where
  "fresh_world f = \<lparr>respond = f, calls = 0, trace = []\<rparr>"

section \<open>Traces of the stages\<close>

lemmas prim_defs = os_Stat_def os_RemoveAll_def os_MkdirAll_def ioutil_WriteFile_def
  log_Printf_def context_WithTimeout_def cancel_def exec_CommandContext_def cmd_Start_def
  cmd_Wait_def emit_def ask_def Let_def

lemmas obs_defs = local_only_def mirror_event_def branch_event_def is_start_def verb_def
  clone_cmd_def fetch_cmd_def push_cmd_def starts_def

lemmas all_defs = worker_body_def reuse_check_def fetch_def clone_def push_def addRemote_def
  remote_name_def index_def remote_text_def prim_defs

lemmas path_defs = filepath_Join_def filepath_Clean_def render_path_def is_rooted_def
  clean_step_def

lemma new_eventsI: "trace w1 = trace w @ es \<Longrightarrow> new_events w w1 = es"
  by (simp add: new_events_def)

lemma clone_extends: "trace (clone r w) = trace w @ new_events w (clone r w)"
  by (simp add: new_events_def clone_def prim_defs split: option.splits)

lemma fetch_extends: "trace (snd (fetch r w)) = trace w @ new_events w (snd (fetch r w))"
  by (simp add: new_events_def fetch_def prim_defs split: option.splits)

lemma addRemote_extends:
  "trace (snd (addRemote r w)) = trace w @ new_events w (snd (addRemote r w))"
  by (simp add: new_events_def addRemote_def prim_defs split: option.splits sum.splits)

lemma push_extends: "trace (snd (push r w)) = trace w @ new_events w (snd (push r w))"
  by (simp add: new_events_def push_def prim_defs split: option.splits sum.splits)

text \<open>
  The trace of one run of the loop body, cut into the pieces the stages add. The branch
  taken after \<open>os.Stat\<close> depends on the answer to \<open>os.Stat\<close> alone.
\<close>

lemma worker_body_trace:
  "\<exists>wa a2 wb wc wd.
     trace (snd (worker_body m r w)) = trace w @
       Stat (filepath_Join [root r, ''FETCH_HEAD'']) (respond w (calls w)) #
       (case respond w (calls w) of
          None \<Rightarrow> Log (''trying to resuse repo: '' @ root r) # new_events wa (snd (fetch r wa))
        | Some e \<Rightarrow> Log (''can't resuse repo: '' @ root r) # RemoveAll (root r) a2 #
                   new_events wa (clone r wa))
       @ new_events wb (snd (fetch r wb))
       @ (if m then new_events wc (snd (addRemote r wc)) @
                    (case fst (addRemote r wc) of
                       Returned \<Rightarrow> new_events wd (snd (push r wd))
                     | Panicked p \<Rightarrow> [])
          else [])
   \<and> fst (worker_body m r w) =
       (if m then (case fst (addRemote r wc) of
                     Returned \<Rightarrow> fst (push r wd)
                   | Panicked p \<Rightarrow> Panicked p)
        else Returned)"
proof -
  let ?p = "filepath_Join [root r, ''FETCH_HEAD'']"
  let ?a = "respond w (calls w)"
  define wS where "wS = snd (os_Stat ?p w)"
  have tS: "trace wS = trace w @ [Stat ?p ?a]"
    by (simp add: wS_def prim_defs)
  have fS: "fst (os_Stat ?p w) = ?a"
    by (simp add: prim_defs)
  define wa where "wa = (case ?a of
       None \<Rightarrow> log_Printf (''trying to resuse repo: '' @ root r) wS
     | Some e \<Rightarrow> snd (os_RemoveAll (root r) (log_Printf (''can't resuse repo: '' @ root r) wS)))"
  define a2 where "a2 = respond wS (calls wS)"
  define wb where "wb = (case ?a of None \<Rightarrow> snd (fetch r wa) | Some e \<Rightarrow> clone r wa)"
  define wc where "wc = snd (fetch r wb)"
  define wd where "wd = snd (addRemote r wc)"
  have ta: "trace wa = trace w @ Stat ?p ?a #
      (case ?a of None \<Rightarrow> [Log (''trying to resuse repo: '' @ root r)]
       | Some e \<Rightarrow> [Log (''can't resuse repo: '' @ root r), RemoveAll (root r) a2])"
    by (simp add: wa_def a2_def tS prim_defs split: option.splits)
  have tb: "trace wb = trace w @ Stat ?p ?a #
      (case ?a of None \<Rightarrow> Log (''trying to resuse repo: '' @ root r) # new_events wa (snd (fetch r wa))
       | Some e \<Rightarrow> Log (''can't resuse repo: '' @ root r) # RemoveAll (root r) a2 # new_events wa (clone r wa))"
    using fetch_extends [of r wa] clone_extends [of r wa]
    by (simp add: wb_def ta split: option.splits)
  have tc: "trace wc = trace wb @ new_events wb (snd (fetch r wb))"
    unfolding wc_def by (rule fetch_extends)
  have td: "trace wd = trace wc @ new_events wc (snd (addRemote r wc))"
    unfolding wd_def by (rule addRemote_extends)
  have branch: "(let (canReuse, w1) = reuse_check r w
          in if \<not> canReuse
             then (let (rmerr, w2) = os_RemoveAll (root r) w1 in clone r w2)
             else w1) = wb"
    by (simp add: reuse_check_def wb_def wa_def wS_def fS split_def Let_def split: option.splits)
  have body: "worker_body m r w =
      (if m then (case addRemote r wc of
                    (Panicked p, w4) \<Rightarrow> (Panicked p, w4)
                  | (Returned, w4) \<Rightarrow> push r w4)
       else (Returned, wc))"
    using branch by (simp add: worker_body_def wc_def split_def Let_def)
  have te: "trace (snd (push r wd)) = trace wd @ new_events wd (snd (push r wd))"
    by (rule push_extends)
  have snd_body: "snd (worker_body m r w) =
      (if m then (case fst (addRemote r wc) of Returned \<Rightarrow> snd (push r wd) | Panicked p \<Rightarrow> wd)
       else wc)"
    by (simp add: body wd_def split: prod.splits completion.splits)
  show ?thesis
  proof (intro exI conjI)
    show "fst (worker_body m r w) =
       (if m then (case fst (addRemote r wc) of
                     Returned \<Rightarrow> fst (push r wd)
                   | Panicked p \<Rightarrow> Panicked p)
        else Returned)"
      by (simp add: body wd_def split: prod.splits completion.splits)
    show "trace (snd (worker_body m r w)) = trace w @
       Stat ?p ?a #
       (case ?a of
          None \<Rightarrow> Log (''trying to resuse repo: '' @ root r) # new_events wa (snd (fetch r wa))
        | Some e \<Rightarrow> Log (''can't resuse repo: '' @ root r) # RemoveAll (root r) a2 #
                   new_events wa (clone r wa))
       @ new_events wb (snd (fetch r wb))
       @ (if m then new_events wc (snd (addRemote r wc)) @
                    (case fst (addRemote r wc) of
                       Returned \<Rightarrow> new_events wd (snd (push r wd))
                     | Panicked p \<Rightarrow> [])
          else [])"
      by (simp add: snd_body te td tc tb split: completion.splits)
  qed
qed


lemma worker_body_pieces:
  obtains (pieces) wa a2 wb wc wd where
    "new_events w (snd (worker_body m r w)) =
       Stat (filepath_Join [root r, ''FETCH_HEAD'']) (respond w (calls w)) #
       (case respond w (calls w) of
          None \<Rightarrow> Log (''trying to resuse repo: '' @ root r) # new_events wa (snd (fetch r wa))
        | Some e \<Rightarrow> Log (''can't resuse repo: '' @ root r) # RemoveAll (root r) a2 #
                   new_events wa (clone r wa))
       @ new_events wb (snd (fetch r wb))
       @ (if m then new_events wc (snd (addRemote r wc)) @
                    (case fst (addRemote r wc) of
                       Returned \<Rightarrow> new_events wd (snd (push r wd))
                     | Panicked p \<Rightarrow> [])
          else [])"
    "fst (worker_body m r w) =
       (if m then (case fst (addRemote r wc) of
                     Returned \<Rightarrow> fst (push r wd)
                   | Panicked p \<Rightarrow> Panicked p)
        else Returned)"
proof -
  obtain wa a2 wb wc wd where
    "trace (snd (worker_body m r w)) = trace w @
       Stat (filepath_Join [root r, ''FETCH_HEAD'']) (respond w (calls w)) #
       (case respond w (calls w) of
          None \<Rightarrow> Log (''trying to resuse repo: '' @ root r) # new_events wa (snd (fetch r wa))
        | Some e \<Rightarrow> Log (''can't resuse repo: '' @ root r) # RemoveAll (root r) a2 #
                   new_events wa (clone r wa))
       @ new_events wb (snd (fetch r wb))
       @ (if m then new_events wc (snd (addRemote r wc)) @
                    (case fst (addRemote r wc) of
                       Returned \<Rightarrow> new_events wd (snd (push r wd))
                     | Panicked p \<Rightarrow> [])
          else [])"
    and "fst (worker_body m r w) =
       (if m then (case fst (addRemote r wc) of
                     Returned \<Rightarrow> fst (push r wd)
                   | Panicked p \<Rightarrow> Panicked p)
        else Returned)"
    using worker_body_trace [of m r w] by blast
  then show thesis
    using that [of wa a2 wb wc wd] by (simp add: new_events_def)
qed

lemma clone_facts:
  "\<exists>a tl. new_events w (clone r w) =
      WithTimeout 30 # Log (''cloning repo: '' @ name r @ '', root: '' @ root r) #
      Start (clone_cmd r) a # tl"
  "list_all (local_only r) (new_events w (clone r w))"
  "scoped None (new_events w (clone r w))"
  "failures_logged (name r) (new_events w (clone r w) @ [Cancel])"
  "starts (new_events w (clone r w)) = [clone_cmd r]"
  by (simp_all add: new_events_def clone_def prim_defs obs_defs split: option.splits)

lemma fetch_facts:
  "\<exists>a tl. new_events w (snd (fetch r w)) =
      WithTimeout 30 # Log (''fetching repo: '' @ name r @ '', root: '' @ root r) #
      Start (fetch_cmd r) a # tl \<and>
      \<not> list_ex branch_event tl \<and> \<not> list_ex (is_start ''fetch'') tl \<and> \<not> list_ex mirror_event tl"
  "list_all (local_only r) (new_events w (snd (fetch r w)))"
  "scoped None (new_events w (snd (fetch r w)))"
  "failures_logged (name r) (new_events w (snd (fetch r w)) @ [Cancel])"
  "starts (new_events w (snd (fetch r w))) = [fetch_cmd r]"
  by (simp_all add: new_events_def fetch_def prim_defs obs_defs split: option.splits)

lemma addRemote_facts:
  "\<not> list_ex branch_event (new_events w (snd (addRemote r w)))"
  "\<not> list_ex (is_start ''fetch'') (new_events w (snd (addRemote r w)))"
  "scoped None (new_events w (snd (addRemote r w)))"
  "failures_logged (name r) (new_events w (snd (addRemote r w)) @ [Cancel])"
  "starts (new_events w (snd (addRemote r w))) = []"
  "fst (addRemote r w) =
     (if fst (os_MkdirAll (filepath_Join [root r, ''remotes'']) 511 w) = None
      then (case remote_name r of Inl p \<Rightarrow> Panicked p | Inr nm \<Rightarrow> Returned)
      else Returned)"
  by (simp_all add: new_events_def addRemote_def prim_defs obs_defs split: option.splits sum.splits)

lemma push_facts:
  "\<not> list_ex branch_event (new_events w (snd (push r w)))"
  "\<not> list_ex (is_start ''fetch'') (new_events w (snd (push r w)))"
  "scoped None (new_events w (snd (push r w)))"
  "failures_logged (name r) (new_events w (snd (push r w)) @ [Cancel])"
  "starts (new_events w (snd (push r w))) =
     (case remote_name r of Inl p \<Rightarrow> [] | Inr nm \<Rightarrow> [push_cmd r nm])"
  "fst (push r w) = (case remote_name r of Inl p \<Rightarrow> Panicked p | Inr nm \<Rightarrow> Returned)"
  by (simp_all add: new_events_def push_def prim_defs obs_defs split: option.splits sum.splits)


lemma stat_answer: "fst (os_Stat p w) = respond w (calls w)"
  by (simp add: prim_defs)

lemma scoped_append: "scoped c a \<Longrightarrow> scoped None b \<Longrightarrow> scoped c (a @ b)"
  by (induction c a rule: scoped.induct) auto



lemma local_not_mirror: "local_only r e \<Longrightarrow> \<not> mirror_event e"
  by (cases e) (auto simp: obs_defs)

lemma local_no_mirror: "list_all (local_only r) es \<Longrightarrow> \<not> list_ex mirror_event es"
  by (induction es) (auto dest: local_not_mirror)

lemma starts_append: "starts (a @ b) = starts a @ starts b"
  by (simp add: starts_def)

lemma worker_body_result:
  "fst (worker_body m r w) =
     (if m then (case remote_name r of Inl p \<Rightarrow> Panicked p | Inr nm \<Rightarrow> Returned) else Returned)"
proof (cases rule: worker_body_pieces [of w m r])
  case (pieces wa a2 wb wc wd)
  show ?thesis
    by (simp add: pieces(2) addRemote_facts(6) push_facts(6) split: sum.splits)
qed

lemma worker_body_starts:
  "starts (new_events w (snd (worker_body m r w))) =
     stage_cmds m r (fst (os_Stat (filepath_Join [root r, ''FETCH_HEAD'']) w) = None)"
proof (cases rule: worker_body_pieces [of w m r])
  case (pieces wa a2 wb wc wd)
  have s1: "\<And>e es. starts (Stat p a # es) = starts es" "\<And>s es. starts (Log s # es) = starts es"
     "\<And>p a es. starts (RemoveAll p a # es) = starts es" "starts [] = []" for p a
    by (simp_all add: starts_def)
  show ?thesis
    by (simp add: pieces(1) starts_append s1 stage_cmds_def stat_answer clone_facts(5)
        fetch_facts(5) addRemote_facts(5,6) push_facts(5) split: option.splits sum.splits)
qed

lemma stage_writes:
  "writes (new_events w (clone r w)) = []"
  "writes (new_events w (snd (fetch r w))) = []"
  "writes (new_events w (snd (push r w))) = []"
  "writes (new_events w (snd (addRemote r w))) =
     (if fst (os_MkdirAll (filepath_Join [root r, ''remotes'']) 511 w) = None
      then (case remote_name r of
              Inl p \<Rightarrow> []
            | Inr nm \<Rightarrow> [(filepath_Join [root r, ''remotes'', nm], remote_text r)])
      else [])"
  by (simp_all add: new_events_def clone_def fetch_def push_def addRemote_def prim_defs writes_def
      split: option.splits sum.splits)


lemma writes_append: "writes (a @ b) = writes a @ writes b"
  by (simp add: writes_def)




lemma worker_body_writes:
  "\<exists>wc. writes (new_events w (snd (worker_body m r w))) =
     (if m then writes (new_events wc (snd (addRemote r wc))) else [])"
proof (cases rule: worker_body_pieces [of w m r])
  case (pieces wa a2 wb wc wd)
  have l: "\<And>e es. writes (Log s # es) = writes es" "writes [] = []"
    "\<And>es. writes (Stat p a # es) = writes es" "\<And>es. writes (RemoveAll p a # es) = writes es" for s p a
    by (simp_all add: writes_def)
  have "writes (new_events w (snd (worker_body m r w))) =
     (if m then writes (new_events wc (snd (addRemote r wc))) else [])"
    by (simp add: pieces(1) writes_append l stage_writes(1,2,3) split: option.splits completion.splits)
  then show ?thesis by blast
qed


lemma Split_no_sep: "sep \<notin> set s \<Longrightarrow> strings_Split s sep = [s]"
  by (induction s) auto

lemma remote_name_no_at:
  "CHR ''@'' \<notin> set (destination r) \<Longrightarrow> remote_name r = Inl (IndexOutOfRange 1 1)"
  by (simp add: remote_name_def Split_no_sep index_def)

lemma is_start_starts: "list_ex (is_start v) es = list_ex (\<lambda>c. verb c = v) (starts es)"
proof (induction es)
  case Nil
  then show ?case by (simp add: starts_def)
next
  case (Cons e es)
  then show ?case by (cases e) (simp_all add: starts_def is_start_def)
qed

lemma remote_name_bb: "destination r = ''git@bb:org/a'' \<Longrightarrow> remote_name r = Inr ''bb''"
  by (simp add: remote_name_def index_def)

section \<open>Facts about paths\<close>

lemma Split_not_Nil: "strings_Split s sep \<noteq> []"
  by (induction s) (auto split: list.splits)

lemma Split_append:
  "strings_Split (a @ sep # b) sep = strings_Split a sep @ strings_Split b sep"
proof (induction a)
  case Nil
  then show ?case by simp
next
  case (Cons x a)
  then show ?case
    using Split_not_Nil [of a sep] by (cases "strings_Split a sep") auto
qed

lemma Split_Join:
  "xs \<noteq> [] \<Longrightarrow> \<forall>x\<in>set xs. sep \<notin> set x \<Longrightarrow>
   strings_Split (strings_Join xs [sep]) sep = xs"
proof (induction xs "[sep]" rule: strings_Join.induct)
  case 1
  then show ?case by simp
next
  case (2 x)
  then show ?case by (simp add: Split_no_sep)
next
  case (3 x y ys)
  then show ?case by (simp add: Split_append Split_no_sep)
qed

lemma Join_Split: "strings_Join (strings_Split s sep) [sep] = s"
proof (induction s)
  case Nil
  then show ?case by simp
next
  case (Cons x s)
  show ?case
  proof (cases "strings_Split s sep")
    case Nil
    then show ?thesis using Split_not_Nil [of s sep] by simp
  next
    case (Cons y ys)
    with Cons.IH show ?thesis by (cases ys) auto
  qed
qed

lemma Split_sep_free: "x \<in> set (strings_Split s sep) \<Longrightarrow> sep \<notin> set x"
proof (induction s arbitrary: x)
  case Nil
  then show ?case by simp
next
  case (Cons c s)
  then show ?case
    by (cases "strings_Split s sep") (auto split: if_splits)
qed

lemma foldl_simple:
  "list_all simple_name cs \<Longrightarrow> foldl (clean_step b) out cs = out @ cs"
  by (induction cs arbitrary: out) (auto simp: clean_step_def simple_name_def)

lemma clean_step_set: "set (clean_step b out c) \<subseteq> set out \<union> {c}"
  by (auto simp: clean_step_def dest: in_set_butlastD)

lemma clean_step_nonempty: "[] \<notin> set out \<Longrightarrow> [] \<notin> set (clean_step b out c)"
  by (auto simp: clean_step_def dest: in_set_butlastD)

lemma foldl_clean_set: "set (foldl (clean_step b) out cs) \<subseteq> set out \<union> set cs"
proof (induction cs arbitrary: out)
  case Nil
  then show ?case by simp
next
  case (Cons c cs)
  show ?case using Cons.IH [of "clean_step b out c"] clean_step_set [of b out c] by auto
qed

lemma plain_not_rooted: "plain_name n \<Longrightarrow> \<not> is_rooted n"
  by (cases n) (auto simp: plain_name_def is_rooted_def simple_name_def)

lemma plain_not_empty: "plain_name n \<Longrightarrow> n \<noteq> []"
  by (auto simp: plain_name_def simple_name_def)

lemma is_rooted_append: "c \<noteq> [] \<Longrightarrow> is_rooted (c @ d) = is_rooted c"
  by (cases c) (auto simp: is_rooted_def)

lemma Join_plain:
  assumes "plain_name n"
  shows "filepath_Join [c, n] =
     render_path (is_rooted c)
       (foldl (clean_step (is_rooted c)) [] (strings_Split c (CHR ''/'')) @
        strings_Split n (CHR ''/''))"
proof (cases "c = []")
  case True
  with assms show ?thesis
    using plain_not_rooted [OF assms] plain_not_empty [OF assms]
    by (simp add: filepath_Join_def filepath_Clean_def foldl_simple plain_name_def is_rooted_def
        clean_step_def)
next
  case False
  have "filepath_Join [c, n] = filepath_Clean (c @ CHR ''/'' # n)"
    using False by (simp add: filepath_Join_def)
  also have "\<dots> = render_path (is_rooted c)
       (foldl (clean_step (is_rooted c)) [] (strings_Split c (CHR ''/'')) @
        strings_Split n (CHR ''/''))"
    using assms False
    by (simp add: filepath_Clean_def Split_append is_rooted_append foldl_simple plain_name_def)
  finally show ?thesis .
qed


lemma Join_eq_Nil: "strings_Join xs [sep] = [] \<longleftrightarrow> xs = [] \<or> xs = [[]]"
  by (induction xs "[sep]" rule: strings_Join.induct) auto

lemma foldl_clean_nonempty:
  "[] \<notin> set out \<Longrightarrow> [] \<notin> set (foldl (clean_step b) out cs)"
  by (induction cs arbitrary: out) (auto simp: clean_step_nonempty)

lemma render_path_inj:
  assumes eq: "render_path b l1 = render_path b l2"
    and ne: "l1 \<noteq> []" "l2 \<noteq> []" "[] \<notin> set l1" "[] \<notin> set l2"
    and free: "\<forall>x\<in>set l1. CHR ''/'' \<notin> set x" "\<forall>x\<in>set l2. CHR ''/'' \<notin> set x"
  shows "l1 = l2"
proof -
  have j1: "strings_Join l1 ''/'' \<noteq> []" using ne by (auto simp: Join_eq_Nil)
  have j2: "strings_Join l2 ''/'' \<noteq> []" using ne by (auto simp: Join_eq_Nil)
  from eq j1 j2 have "strings_Join l1 ''/'' = strings_Join l2 ''/''"
    by (simp add: render_path_def Let_def split: if_splits)
  then have "strings_Split (strings_Join l1 [CHR ''/'']) (CHR ''/'') =
      strings_Split (strings_Join l2 [CHR ''/'']) (CHR ''/'')"
    by simp
  then show ?thesis
    using ne free by (simp add: Split_Join)
qed

lemma Join_plain_inj:
  assumes p1: "plain_name n1" and p2: "plain_name n2"
    and eq: "filepath_Join [c, n1] = filepath_Join [c, n2]"
  shows "n1 = n2"
proof -
  let ?b = "is_rooted c"
  let ?st = "foldl (clean_step ?b) [] (strings_Split c (CHR ''/''))"
  let ?s1 = "strings_Split n1 (CHR ''/'')"
  let ?s2 = "strings_Split n2 (CHR ''/'')"
  have st_free: "\<forall>x\<in>set ?st. CHR ''/'' \<notin> set x"
    using foldl_clean_set [of ?b "[]" "strings_Split c (CHR ''/'')"] Split_sep_free
    by fastforce
  have st_ne: "[] \<notin> set ?st"
    by (rule foldl_clean_nonempty) simp
  have s_ne: "[] \<notin> set ?s1" "[] \<notin> set ?s2"
    using p1 p2 by (auto simp: plain_name_def list_all_iff simple_name_def)
  have "render_path ?b (?st @ ?s1) = render_path ?b (?st @ ?s2)"
    using eq by (simp add: Join_plain [OF p1] Join_plain [OF p2])
  then have "?st @ ?s1 = ?st @ ?s2"
  proof (rule render_path_inj)
    show "?st @ ?s1 \<noteq> []" "?st @ ?s2 \<noteq> []"
      by (simp_all add: Split_not_Nil)
    show "[] \<notin> set (?st @ ?s1)" "[] \<notin> set (?st @ ?s2)"
      using st_ne s_ne by auto
    show "\<forall>x\<in>set (?st @ ?s1). CHR ''/'' \<notin> set x" "\<forall>x\<in>set (?st @ ?s2). CHR ''/'' \<notin> set x"
      using st_free Split_sep_free by auto
  qed
  then have "?s1 = ?s2" by simp
  then have "strings_Join ?s1 [CHR ''/''] = strings_Join ?s2 [CHR ''/'']" by simp
  then show ?thesis by (simp add: Join_Split)
qed

lemma normal_step:
  assumes out: "out = replicate k ''..'' @ l'" and l': "list_all simple_name l'"
    and b: "b \<Longrightarrow> k = 0" and c: "CHR ''/'' \<notin> set c"
  shows "\<exists>k2 l2. clean_step b out c = replicate k2 ''..'' @ l2 \<and> list_all simple_name l2 \<and>
           (b \<longrightarrow> k2 = 0)"
proof -
  consider "c = [] \<or> c = ''.''" | "c = ''..''" "l' \<noteq> []" | "c = ''..''" "l' = []"
    | "simple_name c"
    using c by (auto simp: simple_name_def)
  then show ?thesis
  proof cases
    case 1
    then have "clean_step b out c = out" by (auto simp: clean_step_def)
    with out l' b show ?thesis by blast
  next
    case 2
    then have "last l' \<noteq> ''..''"
      using l' by (cases l' rule: rev_cases) (auto simp: simple_name_def)
    then have "clean_step b out c = replicate k ''..'' @ butlast l'"
      using 2 out by (simp add: clean_step_def butlast_append)
    moreover have "list_all simple_name (butlast l')"
      using l' by (auto simp: list_all_iff dest: in_set_butlastD)
    ultimately show ?thesis using b by blast
  next
    case 3
    show ?thesis
    proof (cases b)
      case True
      then have "out = []" using out 3 b by simp
      then have "clean_step b out c = replicate 0 ''..'' @ []"
        using True 3 by (simp add: clean_step_def)
      moreover have "list_all simple_name []" by simp
      ultimately show ?thesis by blast
    next
      case False
      have "clean_step b out c = replicate (Suc k) ''..'' @ []"
        using False 3 out by (cases k) (simp_all add: clean_step_def replicate_append_same)
      moreover have "list_all simple_name []" by simp
      ultimately show ?thesis using False by blast
    qed
  next
    case 4
    then have "clean_step b out c = replicate k ''..'' @ (l' @ [c])"
      using out by (auto simp: clean_step_def simple_name_def)
    moreover have "list_all simple_name (l' @ [c])" using l' 4 by simp
    ultimately show ?thesis using b by blast
  qed
qed

lemma normal_foldl:
  assumes "\<forall>c\<in>set cs. CHR ''/'' \<notin> set c"
    and "out = replicate k ''..'' @ l'" "list_all simple_name l'" "b \<longrightarrow> k = 0"
  shows "\<exists>k2 l2. foldl (clean_step b) out cs = replicate k2 ''..'' @ l2 \<and>
           list_all simple_name l2 \<and> (b \<longrightarrow> k2 = 0)"
  using assms
proof (induction cs arbitrary: out k l')
  case Nil
  then show ?case by auto
next
  case (Cons c cs)
  obtain k2 l2 where "clean_step b out c = replicate k2 ''..'' @ l2" "list_all simple_name l2"
    "b \<longrightarrow> k2 = 0"
    using normal_step [of out k l' b c] Cons.prems by auto
  then show ?case
    using Cons.IH [of "clean_step b out c" k2 l2] Cons.prems(1) by simp
qed

lemma foldl_dotdots:
  "foldl (clean_step False) (replicate j ''..'') (replicate k ''..'') = replicate (j + k) ''..''"
proof (induction k arbitrary: j)
  case 0
  then show ?case by simp
next
  case (Suc k)
  have "clean_step False (replicate j ''..'') ''..'' = replicate (Suc j) ''..''"
    by (cases j) (simp_all add: clean_step_def replicate_append_same)
  then show ?case using Suc.IH [of "Suc j"] by simp
qed

lemma foldl_normal:
  assumes "l = replicate k ''..'' @ l'" "list_all simple_name l'" "b \<longrightarrow> k = 0"
  shows "foldl (clean_step b) [] l = l"
proof (cases b)
  case True
  with assms show ?thesis by (simp add: foldl_simple)
next
  case False
  then show ?thesis
    using assms foldl_dotdots [of 0 k] by (simp add: foldl_simple)
qed

lemma stack_idem:
  "foldl (clean_step b) [] (foldl (clean_step b) [] (strings_Split p (CHR ''/''))) =
   foldl (clean_step b) [] (strings_Split p (CHR ''/''))"
proof -
  obtain k l' where "foldl (clean_step b) [] (strings_Split p (CHR ''/'')) = replicate k ''..'' @ l'"
    "list_all simple_name l'" "b \<longrightarrow> k = 0"
    using normal_foldl [of "strings_Split p (CHR ''/'')" "[]" 0 "[]" b] Split_sep_free
    by auto
  then show ?thesis by (rule foldl_normal)
qed


lemma Split_Join_concat:
  "xs \<noteq> [] \<Longrightarrow>
   strings_Split (strings_Join xs [sep]) sep = concat (map (\<lambda>x. strings_Split x sep) xs)"
  by (induction xs "[sep]" rule: strings_Join.induct) (simp_all add: Split_append)

lemma Split_simples:
  "list_all simple_name ps \<Longrightarrow> concat (map (\<lambda>x. strings_Split x (CHR ''/'')) ps) = ps"
  by (induction ps) (simp_all add: simple_name_def Split_no_sep)

lemma Join_Cons_rooted:
  "x \<noteq> [] \<Longrightarrow> is_rooted (strings_Join (x # xs) ''/'') = is_rooted x"
  by (cases xs) (simp_all add: is_rooted_append)

lemma render_not_Nil: "render_path b l \<noteq> []"
  by (simp add: render_path_def Let_def)

lemma is_rooted_render:
  assumes "l \<noteq> []" "[] \<notin> set l" "\<forall>x\<in>set l. CHR ''/'' \<notin> set x"
  shows "is_rooted (render_path b l) = b"
proof (cases b)
  case True
  then show ?thesis by (simp add: render_path_def is_rooted_def)
next
  case False
  obtain x xs where l: "l = x # xs" using assms(1) by (cases l) auto
  then obtain ch cs where x: "x = ch # cs" "ch \<noteq> CHR ''/''"
    using assms(2,3) by (cases x) auto
  have "strings_Join l ''/'' = ch # cs @ (case xs of [] \<Rightarrow> [] | _ \<Rightarrow> ''/'' @ strings_Join xs ''/'')"
    using l x by (cases xs) simp_all
  then show ?thesis
    using False x by (simp add: render_path_def is_rooted_def Let_def)
qed

lemma Split_render:
  assumes "l \<noteq> []" "[] \<notin> set l" "\<forall>x\<in>set l. CHR ''/'' \<notin> set x"
  shows "strings_Split (render_path b l) (CHR ''/'') = (if b then [] # l else l)"
proof -
  have j: "strings_Join l ''/'' \<noteq> []" using assms by (auto simp: Join_eq_Nil)
  have "strings_Split (strings_Join l [CHR ''/'']) (CHR ''/'') = l"
    using assms by (simp add: Split_Join)
  then show ?thesis using j by (simp add: render_path_def Let_def)
qed

lemma Join_nested:
  assumes n: "plain_name n" and ps: "list_all simple_name ps"
  shows "filepath_Join (filepath_Join [c, n] # ps) = filepath_Join (c # n # ps)"
proof -
  let ?b = "is_rooted c"
  let ?st = "foldl (clean_step ?b) [] (strings_Split c (CHR ''/''))"
  let ?sn = "strings_Split n (CHR ''/'')"
  let ?l = "?st @ ?sn"
  let ?R = "filepath_Join [c, n]"
  have sn: "list_all simple_name ?sn" using n by (simp add: plain_name_def)
  have R: "?R = render_path ?b ?l" by (rule Join_plain [OF n])
  have l_ne: "?l \<noteq> []" by (simp add: Split_not_Nil)
  have l_e: "[] \<notin> set ?l"
    using foldl_clean_nonempty [of "[]" ?b "strings_Split c (CHR ''/'')"] sn
    by (auto simp: list_all_iff simple_name_def)
  have l_f: "\<forall>x\<in>set ?l. CHR ''/'' \<notin> set x"
    using foldl_clean_set [of ?b "[]" "strings_Split c (CHR ''/'')"] Split_sep_free
    by fastforce
  have Rne: "?R \<noteq> []" by (simp add: R render_not_Nil)
  have skip: "clean_step b [] [] = []" for b
    by (simp add: clean_step_def)
  have "foldl (clean_step ?b) [] (strings_Split ?R (CHR ''/'')) = foldl (clean_step ?b) [] ?l"
    by (simp add: R Split_render [OF l_ne l_e l_f] skip del: foldl_append)
  also have "\<dots> = ?l"
    by (simp add: stack_idem foldl_simple [OF sn])
  finally have stR: "foldl (clean_step ?b) [] (strings_Split ?R (CHR ''/'')) = ?l" .
  have lhs: "filepath_Join (?R # ps) = render_path ?b (?l @ ps)"
  proof -
    have "filepath_Join (?R # ps) = filepath_Clean (strings_Join (?R # ps) ''/'')"
      using Rne by (simp add: filepath_Join_def)
    also have "\<dots> = render_path ?b
        (foldl (clean_step ?b) [] (strings_Split ?R (CHR ''/'') @ ps))"
      using Join_Cons_rooted [OF Rne, of ps] is_rooted_render [OF l_ne l_e l_f, of ?b]
        Split_Join_concat [of "?R # ps" "CHR ''/''"] Split_simples [OF ps]
      by (simp add: filepath_Clean_def R del: foldl_append)
    also have "\<dots> = render_path ?b (?l @ ps)"
      by (simp only: foldl_append stR foldl_simple [OF ps])
    finally show ?thesis .
  qed
  have rhs: "filepath_Join (c # n # ps) = render_path ?b (?l @ ps)"
  proof (cases "c = []")
    case True
    have nne: "n \<noteq> []" by (rule plain_not_empty [OF n])
    have "filepath_Join (c # n # ps) = filepath_Clean (strings_Join (n # ps) ''/'')"
      using True nne by (simp add: filepath_Join_def)
    also have "\<dots> = render_path False (foldl (clean_step False) [] (?sn @ ps))"
      using Join_Cons_rooted [OF nne, of ps] plain_not_rooted [OF n]
        Split_Join_concat [of "n # ps" "CHR ''/''"] Split_simples [OF ps]
      by (simp add: filepath_Clean_def del: foldl_append)
    also have "\<dots> = render_path ?b (?l @ ps)"
      using True sn ps by (simp add: foldl_simple is_rooted_def clean_step_def)
    finally show ?thesis .
  next
    case False
    have "filepath_Join (c # n # ps) = filepath_Clean (strings_Join (c # n # ps) ''/'')"
      using False by (simp add: filepath_Join_def)
    also have "\<dots> = render_path ?b
        (foldl (clean_step ?b) [] (strings_Split c (CHR ''/'') @ ?sn @ ps))"
      using Join_Cons_rooted [OF False, of "n # ps"]
        Split_Join_concat [of "c # n # ps" "CHR ''/''"] Split_simples [OF ps]
      by (simp add: filepath_Clean_def del: foldl_append)
    also have "\<dots> = render_path ?b (?l @ ps)"
      using sn ps by (simp add: foldl_simple)
    finally show ?thesis .
  qed
  show ?thesis by (simp only: lhs rhs)
qed

section \<open>The reuse decision\<close>

text \<open>
  C3. When \<open>os.Stat\<close> does not find \<open>FETCH_HEAD\<close> under the local root, the reuse
  decision is false, and the run of the loop body begins with the failed \<open>Stat\<close>, the
  log line, the removal of the whole local root and the start of
  \<open>git clone --mirror source root\<close>, whatever the environment answers afterwards and
  whether or not mirroring is enabled.
\<close>

theorem marker_absent_deletes_then_clones:
  assumes "fst (os_Stat (filepath_Join [root r, ''FETCH_HEAD'']) w) = Some e"
  shows "fst (reuse_check r w) = False \<and>
         (\<exists>a2 a3 rest. new_events w (snd (worker_body m r w)) =
            [Stat (filepath_Join [root r, ''FETCH_HEAD'']) (Some e),
             Log (''can't resuse repo: '' @ root r),
             RemoveAll (root r) a2,
             WithTimeout 30,
             Log (''cloning repo: '' @ name r @ '', root: '' @ root r),
             Start (clone_cmd r) a3] @ rest)"
proof
  show "fst (reuse_check r w) = False"
    using assms by (simp add: reuse_check_def split_def Let_def)
next
  from assms have a: "respond w (calls w) = Some e"
    by (simp add: stat_answer)
  show "\<exists>a2 a3 rest. new_events w (snd (worker_body m r w)) =
            [Stat (filepath_Join [root r, ''FETCH_HEAD'']) (Some e),
             Log (''can't resuse repo: '' @ root r),
             RemoveAll (root r) a2,
             WithTimeout 30,
             Log (''cloning repo: '' @ name r @ '', root: '' @ root r),
             Start (clone_cmd r) a3] @ rest"
  proof (cases rule: worker_body_pieces [of w m r])
    case (pieces wa a2 wb wc wd)
    obtain a3 tl where "new_events wa (clone r wa) =
        WithTimeout 30 # Log (''cloning repo: '' @ name r @ '', root: '' @ root r) #
        Start (clone_cmd r) a3 # tl"
      using clone_facts(1) [of wa r] by blast
    with pieces(1) show ?thesis
      by (simp add: a)
  qed
qed

theorem marker_absent_deletes_then_clones_witness:
  "fst (os_Stat (filepath_Join [root repo_a, ''FETCH_HEAD''])
          (fresh_world (\<lambda>n. if n = 0 then Some ''no such file or directory'' else None)))
     = Some ''no such file or directory'' \<and>
   fst (reuse_check repo_a
          (fresh_world (\<lambda>n. if n = 0 then Some ''no such file or directory'' else None)))
     = False"
proof -
  let ?w = "fresh_world (\<lambda>n. if n = 0 then Some ''no such file or directory'' else None)"
  have h: "fst (os_Stat (filepath_Join [root repo_a, ''FETCH_HEAD'']) ?w)
             = Some ''no such file or directory''"
    by (simp add: prim_defs fresh_world_def)
  from marker_absent_deletes_then_clones [OF h, of True] h show ?thesis
    by blast
qed

text \<open>
  When the marker file is found the reuse decision is true whatever the probe fetch
  returns: the test after the probe reads the error of \<open>os.Stat\<close>, which is nil on
  this path.
\<close>

lemma reuse_check_found:
  "fst (os_Stat (filepath_Join [root r, ''FETCH_HEAD'']) w) = None \<Longrightarrow>
   fst (reuse_check r w) = True"
  by (simp add: reuse_check_def split_def Let_def)

text \<open>
  C1. The claim asks that a failed probe fetch demotes the reuse decision to false and
  leads to delete-then-clone. Here \<open>FETCH_HEAD\<close> is found and the probe fetch fails with
  \<open>exit status 128\<close> (answer 0 goes to \<open>os.Stat\<close>, answer 1 to \<open>cmd.Start\<close>, answer 2
  to \<open>cmd.Wait\<close>): \<open>fetch\<close> returns the error, the reuse decision stays true, and the run
  of the loop body removes nothing and clones nothing.
\<close>

theorem probe_fetch_failure_not_demoted:
  "fst (fetch repo_a
         (log_Printf (''trying to resuse repo: '' @ root repo_a)
            (snd (os_Stat (filepath_Join [root repo_a, ''FETCH_HEAD''])
               (fresh_world (\<lambda>n. if n = 2 then Some ''exit status 128'' else None))))))
     = Some ''exit status 128'' \<and>
   fst (reuse_check repo_a
         (fresh_world (\<lambda>n. if n = 2 then Some ''exit status 128'' else None))) = True \<and>
   filter branch_event (trace (snd (worker_body False repo_a
         (fresh_world (\<lambda>n. if n = 2 then Some ''exit status 128'' else None)))))
     = [Stat ''/cache/a/FETCH_HEAD'' None]"
  by (simp add: all_defs repo_a_def fresh_world_def obs_defs path_defs)

section \<open>The order of the stages\<close>

text \<open>
  C4. In every run of the loop body, whatever the environment answers (so whichever branch
  was taken and whether or not the clone succeeded) and whether or not mirroring is
  enabled, the trace is the clone-or-reuse branch, then one fetch, then the mirroring
  stages. It splits at the start of a \<open>git fetch --prune origin\<close> in the local root such
  that: before the split exactly one command was started, the probe fetch when the marker
  file was found and the clone when it was not, and nothing there belongs to the mirroring
  stages; after the split there is no \<open>Stat\<close>, no removal, no clone and no further fetch,
  and the only command started is the push, when mirroring is enabled and the destination
  yields a remote name. So the commands of the whole run are the branch's command, this one
  fetch, and the push if any: the fetch is there on both paths, once.
\<close>

theorem one_fetch_between_branch_and_mirroring:
  "\<exists>pre a post.
      new_events w (snd (worker_body m r w)) = pre @ Start (fetch_cmd r) a # post \<and>
      starts pre =
        [if fst (os_Stat (filepath_Join [root r, ''FETCH_HEAD'']) w) = None
         then fetch_cmd r else clone_cmd r] \<and>
      \<not> list_ex mirror_event pre \<and>
      \<not> list_ex branch_event post \<and>
      \<not> list_ex (is_start ''fetch'') post \<and>
      starts post =
        (if m then (case remote_name r of Inl p \<Rightarrow> [] | Inr nm \<Rightarrow> [push_cmd r nm]) else []) \<and>
      starts (new_events w (snd (worker_body m r w))) =
        stage_cmds m r (fst (os_Stat (filepath_Join [root r, ''FETCH_HEAD'']) w) = None)"
proof (cases rule: worker_body_pieces [of w m r])
  case (pieces wa a2 wb wc wd)
  define B where "B = Stat (filepath_Join [root r, ''FETCH_HEAD'']) (respond w (calls w)) #
       (case respond w (calls w) of
          None \<Rightarrow> Log (''trying to resuse repo: '' @ root r) # new_events wa (snd (fetch r wa))
        | Some e \<Rightarrow> Log (''can't resuse repo: '' @ root r) # RemoveAll (root r) a2 #
                   new_events wa (clone r wa))"
  define M where "M = (if m then new_events wc (snd (addRemote r wc)) @
                    (case fst (addRemote r wc) of
                       Returned \<Rightarrow> new_events wd (snd (push r wd))
                     | Panicked p \<Rightarrow> [])
          else [])"
  obtain a tl where f: "new_events wb (snd (fetch r wb)) =
      WithTimeout 30 # Log (''fetching repo: '' @ name r @ '', root: '' @ root r) #
      Start (fetch_cmd r) a # tl"
    and tl: "\<not> list_ex branch_event tl" "\<not> list_ex (is_start ''fetch'') tl"
    using fetch_facts(1) [of wb r] by blast
  have s1: "\<And>es. starts (Stat p x # es) = starts es" "\<And>es. starts (Log s # es) = starts es"
    "\<And>es. starts (RemoveAll p x # es) = starts es" "starts [] = []"
    "\<And>es. starts (WithTimeout d # es) = starts es"
    "\<And>es. starts (Start c x # es) = c # starts es" for p x s d c
    by (simp_all add: starts_def)
  have stl: "starts tl = []"
    using fetch_facts(5) [of wb r] by (simp add: f s1)
  have sB: "starts B =
      [if fst (os_Stat (filepath_Join [root r, ''FETCH_HEAD'']) w) = None
       then fetch_cmd r else clone_cmd r]"
    by (simp add: B_def s1 stat_answer clone_facts(5) fetch_facts(5) split: option.splits)
  have sM: "starts M =
      (if m then (case remote_name r of Inl p \<Rightarrow> [] | Inr nm \<Rightarrow> [push_cmd r nm]) else [])"
    by (simp add: M_def s1 starts_append addRemote_facts(5,6) push_facts(5)
        split: option.splits sum.splits)
  have B: "\<not> list_ex mirror_event B"
    using local_no_mirror [OF fetch_facts(2) [of r wa]] local_no_mirror [OF clone_facts(2) [of r wa]]
    by (simp add: B_def mirror_event_def is_start_def split: option.splits)
  have M: "\<not> list_ex branch_event M" "\<not> list_ex (is_start ''fetch'') M"
    using addRemote_facts(1,2) [of wc r] push_facts(1,2) [of wd r]
    by (simp_all add: M_def split: completion.splits)
  let ?pre = "B @ [WithTimeout 30, Log (''fetching repo: '' @ name r @ '', root: '' @ root r)]"
  have "new_events w (snd (worker_body m r w)) = ?pre @ Start (fetch_cmd r) a # (tl @ M)"
    using pieces(1) f by (simp add: B_def M_def)
  moreover have "starts ?pre =
      [if fst (os_Stat (filepath_Join [root r, ''FETCH_HEAD'']) w) = None
       then fetch_cmd r else clone_cmd r]"
    by (simp add: starts_append sB s1)
  moreover have "\<not> list_ex mirror_event ?pre"
    using B by (simp add: mirror_event_def is_start_def)
  moreover have "\<not> list_ex branch_event (tl @ M)" "\<not> list_ex (is_start ''fetch'') (tl @ M)"
    using tl M by simp_all
  moreover have "starts (tl @ M) =
      (if m then (case remote_name r of Inl p \<Rightarrow> [] | Inr nm \<Rightarrow> [push_cmd r nm]) else [])"
    by (simp add: starts_append stl sM)
  moreover have "starts (new_events w (snd (worker_body m r w))) =
        stage_cmds m r (fst (os_Stat (filepath_Join [root r, ''FETCH_HEAD'']) w) = None)"
    by (rule worker_body_starts)
  ultimately show ?thesis by blast
qed

theorem one_fetch_between_branch_and_mirroring_witness:
  "\<exists>pre a post.
      new_events (fresh_world (\<lambda>n. None))
        (snd (worker_body True repo_a (fresh_world (\<lambda>n. None))))
        = pre @ Start (fetch_cmd repo_a) a # post \<and>
      starts pre = [fetch_cmd repo_a] \<and>
      \<not> list_ex mirror_event pre \<and>
      \<not> list_ex branch_event post \<and>
      \<not> list_ex (is_start ''fetch'') post \<and>
      starts post = [push_cmd repo_a ''bb''] \<and>
      starts (new_events (fresh_world (\<lambda>n. None))
        (snd (worker_body True repo_a (fresh_world (\<lambda>n. None)))))
        = [fetch_cmd repo_a, fetch_cmd repo_a, push_cmd repo_a ''bb'']"
proof -
  have h1: "fst (os_Stat (filepath_Join [root repo_a, ''FETCH_HEAD''])
      (fresh_world (\<lambda>n. None))) = None"
    by (simp add: prim_defs fresh_world_def)
  have h2: "remote_name repo_a = Inr ''bb''"
    by (simp add: remote_name_def repo_a_def index_def)
  show ?thesis
    using one_fetch_between_branch_and_mirroring [of "fresh_world (\<lambda>n. None)" True repo_a]
    by (simp add: h1 h2 stage_cmds_def)
qed

section \<open>Mirroring disabled\<close>

text \<open>
  C6. With the flag \<open>-mirror\<close> off, a run of the loop body returns normally and every
  event of it stays inside the local mirror: the \<open>Stat\<close> of the marker file, the removal
  of the local root, the clone into it and fetches in it. No directory is made, no file is
  written and no push is started.
\<close>

theorem mirroring_disabled_stays_local:
  "fst (worker_body False r w) = Returned \<and>
   list_all (local_only r) (new_events w (snd (worker_body False r w))) \<and>
   \<not> list_ex mirror_event (new_events w (snd (worker_body False r w)))"
proof (cases rule: worker_body_pieces [of w False r])
  case (pieces wa a2 wb wc wd)
  have "list_all (local_only r) (new_events w (snd (worker_body False r w)))"
    using clone_facts(2) [of r wa] fetch_facts(2) [of r wa] fetch_facts(2) [of r wb]
    by (simp add: pieces(1) local_only_def split: option.splits)
  then show ?thesis
    using pieces(2) local_no_mirror by simp
qed

theorem mirroring_disabled_stays_local_witness:
  "fst (worker_body False repo_a (fresh_world (\<lambda>n. None))) = Returned \<and>
   list_all (local_only repo_a)
     (new_events (fresh_world (\<lambda>n. None))
        (snd (worker_body False repo_a (fresh_world (\<lambda>n. None))))) \<and>
   \<not> list_ex mirror_event
     (new_events (fresh_world (\<lambda>n. None))
        (snd (worker_body False repo_a (fresh_world (\<lambda>n. None)))))"
  by (rule mirroring_disabled_stays_local)

section \<open>Timeouts\<close>

text \<open>
  C10. Each of \<open>clone\<close>, \<open>fetch\<close> and \<open>push\<close> makes its timeout context first, of 30
  seconds, starts and waits for its command under that context only, and cancels the
  context on every way out: after a start that failed, after a wait that failed, after
  success, and when \<open>push\<close> panics. The same holds for a whole run of the loop body, in
  which every started command carries a context of 30 seconds. The expiry itself is the
  Go runtime's: it shows here as an error returned by \<open>cmd.Wait\<close>.
\<close>

theorem subprocesses_run_under_scoped_timeout:
  "scoped None (new_events w (clone r w)) \<and>
   scoped None (new_events w (snd (fetch r w))) \<and>
   scoped None (new_events w (snd (push r w))) \<and>
   scoped None (new_events w (snd (worker_body m r w))) \<and>
   list_all (\<lambda>c. Ctx c = 30) (starts (new_events w (snd (worker_body m r w))))"
proof (cases rule: worker_body_pieces [of w m r])
  case (pieces wa a2 wb wc wd)
  have B: "scoped None (case respond w (calls w) of
          None \<Rightarrow> Log (''trying to resuse repo: '' @ root r) # new_events wa (snd (fetch r wa))
        | Some e \<Rightarrow> Log (''can't resuse repo: '' @ root r) # RemoveAll (root r) a2 #
                   new_events wa (clone r wa))"
    using clone_facts(3) [of wa r] fetch_facts(3) [of wa r] by (simp split: option.splits)
  have M: "scoped None (if m then new_events wc (snd (addRemote r wc)) @
                    (case fst (addRemote r wc) of
                       Returned \<Rightarrow> new_events wd (snd (push r wd))
                     | Panicked p \<Rightarrow> [])
          else [])"
    using addRemote_facts(3) [of wc r]
      scoped_append [OF addRemote_facts(3) [of wc r] push_facts(3) [of wd r]]
    by (simp split: completion.splits)
  have "scoped None (new_events w (snd (worker_body m r w)))"
    using scoped_append [OF B scoped_append [OF fetch_facts(3) [of wb r] M]]
    by (simp add: pieces(1))
  moreover have "list_all (\<lambda>c. Ctx c = 30) (starts (new_events w (snd (worker_body m r w))))"
    by (simp add: worker_body_starts stage_cmds_def clone_cmd_def fetch_cmd_def push_cmd_def
        split: sum.splits)
  ultimately show ?thesis
    by (simp add: clone_facts(3) fetch_facts(3) push_facts(3))
qed

theorem subprocesses_run_under_scoped_timeout_witness:
  "scoped None
     (new_events (fresh_world (\<lambda>n. Some ''fork/exec: resource temporarily unavailable''))
        (snd (worker_body True repo_a
           (fresh_world (\<lambda>n. Some ''fork/exec: resource temporarily unavailable'')))))"
  using subprocesses_run_under_scoped_timeout
    [of "fresh_world (\<lambda>n. Some ''fork/exec: resource temporarily unavailable'')" repo_a True]
  by blast

section \<open>A destination without an at sign\<close>

text \<open>
  C8. When the destination contains no \<open>@\<close>, \<open>strings.Split\<close> returns one element and
  the index 1 is out of range. Every run of the loop body with mirroring enabled then
  panics with that error, whatever the environment answers: \<open>push\<close> always panics, and
  \<open>addRemote\<close> panics as soon as the \<open>remotes\<close> directory could be made (when it could
  not, \<open>addRemote\<close> has returned before the index and the panic is that of \<open>push\<close>). No
  registration file is written and no push is started.
\<close>

theorem destination_without_at_panics:
  assumes "CHR ''@'' \<notin> set (destination r)"
  shows "fst (worker_body True r w) = Panicked (IndexOutOfRange 1 1) \<and>
         fst (push r w) = Panicked (IndexOutOfRange 1 1) \<and>
         fst (addRemote r w) =
           (if fst (os_MkdirAll (filepath_Join [root r, ''remotes'']) 511 w) = None
            then Panicked (IndexOutOfRange 1 1) else Returned) \<and>
         writes (new_events w (snd (worker_body True r w))) = [] \<and>
         \<not> list_ex (is_start ''push'') (new_events w (snd (worker_body True r w)))"
proof -
  note n = remote_name_no_at [OF assms]
  obtain wc where "writes (new_events w (snd (worker_body True r w))) =
      writes (new_events wc (snd (addRemote r wc)))"
    using worker_body_writes [of w True r] by auto
  then have w: "writes (new_events w (snd (worker_body True r w))) = []"
    by (simp add: stage_writes(4) n)
  have "starts (new_events w (snd (worker_body True r w))) =
      [if fst (os_Stat (filepath_Join [root r, ''FETCH_HEAD'']) w) = None
       then fetch_cmd r else clone_cmd r, fetch_cmd r]"
    by (simp add: worker_body_starts stage_cmds_def n)
  then have "\<not> list_ex (is_start ''push'') (new_events w (snd (worker_body True r w)))"
    by (simp add: is_start_starts verb_def fetch_cmd_def clone_cmd_def)
  then show ?thesis
    by (simp add: worker_body_result push_facts(6) addRemote_facts(6) n w)
qed

theorem destination_without_at_panics_witness:
  "CHR ''@'' \<notin> set (destination (repo_a\<lparr>destination := ''https://bb.example/org/a''\<rparr>)) \<and>
   fst (worker_body True (repo_a\<lparr>destination := ''https://bb.example/org/a''\<rparr>)
          (fresh_world (\<lambda>n. None)))
     = Panicked (IndexOutOfRange 1 1)"
proof -
  have h: "CHR ''@'' \<notin> set (destination (repo_a\<lparr>destination := ''https://bb.example/org/a''\<rparr>))"
    by simp
  from destination_without_at_panics [OF h, of "fresh_world (\<lambda>n. None)"] h show ?thesis
    by blast
qed

section \<open>Failures of a stage\<close>




section \<open>The scenario of the spec\<close>

text \<open>
  C5. For the descriptor that \<open>main\<close> builds from the name \<open>a\<close> and the destination
  \<open>git@bb:org/a\<close> under any cache directory: the remote name is \<open>bb\<close>; when the
  \<open>remotes\<close> directory can be made, \<open>addRemote\<close> writes the file \<open>remotes/bb\<close> under
  the local root with exactly the three lines of the claim; \<open>push\<close> starts
  \<open>git push --mirror --force bb\<close> in the local root; and in a run of the loop body with
  mirroring enabled the push is the last command started and no other file is written.
\<close>

theorem scenario_registers_and_pushes_bb:
  assumes "r = newRepo cacheRoot \<lparr>Name = ''a'', ADO = src, BitBucket = ''git@bb:org/a''\<rparr>"
  shows "root r = filepath_Join [cacheRoot, ''a''] \<and>
         remote_name r = Inr ''bb'' \<and>
         (fst (os_MkdirAll (filepath_Join [root r, ''remotes'']) 511 w) = None \<longrightarrow>
            (\<exists>a. new_events w (snd (addRemote r w)) =
               [MkdirAll (filepath_Join [root r, ''remotes'']) 511 None,
                WriteFile (filepath_Join [root r, ''remotes'', ''bb''])
                  ''URL: git@bb:org/a\<newline>Push: +refs/heads/*:refs/heads/*\<newline>Push: +refs/tags/*:refs/tags/*\<newline>''
                  511 a])) \<and>
         starts (new_events w (snd (push r w))) =
           [\<lparr>Ctx = 30, Args = [''git'', ''push'', ''--mirror'', ''--force'', ''bb''],
             Dir = root r\<rparr>] \<and>
         starts (new_events w (snd (worker_body True r w))) =
           [if fst (os_Stat (filepath_Join [root r, ''FETCH_HEAD'']) w) = None
            then fetch_cmd r else clone_cmd r,
            fetch_cmd r, push_cmd r ''bb''] \<and>
         (writes (new_events w (snd (worker_body True r w))) = [] \<or>
          writes (new_events w (snd (worker_body True r w))) =
            [(filepath_Join [root r, ''remotes'', ''bb''],
              ''URL: git@bb:org/a\<newline>Push: +refs/heads/*:refs/heads/*\<newline>Push: +refs/tags/*:refs/tags/*\<newline>'')]) \<and>
         filepath_Join [root r, ''remotes'', ''bb''] =
           filepath_Join [cacheRoot, ''a'', ''remotes'', ''bb'']"
proof -
  have 7: "filepath_Join [root r, ''remotes'', ''bb''] =
           filepath_Join [cacheRoot, ''a'', ''remotes'', ''bb'']"
    using Join_nested [of "''a''" "[''remotes'', ''bb'']" cacheRoot]
    by (simp add: assms newRepo_def plain_name_def simple_name_def)
  have d: "destination r = ''git@bb:org/a''"
    by (simp add: assms newRepo_def)
  note n = remote_name_bb [OF d]
  have t: "remote_text r =
      ''URL: git@bb:org/a\<newline>Push: +refs/heads/*:refs/heads/*\<newline>Push: +refs/tags/*:refs/tags/*\<newline>''"
    by (simp add: remote_text_def d)
  have 1: "root r = filepath_Join [cacheRoot, ''a'']"
    by (simp add: assms newRepo_def)
  have 3: "\<exists>a. new_events w (snd (addRemote r w)) =
               [MkdirAll (filepath_Join [root r, ''remotes'']) 511 None,
                WriteFile (filepath_Join [root r, ''remotes'', ''bb''])
                  ''URL: git@bb:org/a\<newline>Push: +refs/heads/*:refs/heads/*\<newline>Push: +refs/tags/*:refs/tags/*\<newline>''
                  511 a]"
    if "fst (os_MkdirAll (filepath_Join [root r, ''remotes'']) 511 w) = None"
    using that by (simp add: addRemote_def n t new_events_def prim_defs)
  have 4: "starts (new_events w (snd (push r w))) =
           [\<lparr>Ctx = 30, Args = [''git'', ''push'', ''--mirror'', ''--force'', ''bb''],
             Dir = root r\<rparr>]"
    by (simp add: push_facts(5) n push_cmd_def)
  have 5: "starts (new_events w (snd (worker_body True r w))) =
           [if fst (os_Stat (filepath_Join [root r, ''FETCH_HEAD'']) w) = None
            then fetch_cmd r else clone_cmd r,
            fetch_cmd r, push_cmd r ''bb'']"
    by (simp add: worker_body_starts stage_cmds_def n)
  obtain wc where "writes (new_events w (snd (worker_body True r w))) =
      writes (new_events wc (snd (addRemote r wc)))"
    using worker_body_writes [of w True r] by auto
  then have 6: "writes (new_events w (snd (worker_body True r w))) = [] \<or>
          writes (new_events w (snd (worker_body True r w))) =
            [(filepath_Join [root r, ''remotes'', ''bb''],
              ''URL: git@bb:org/a\<newline>Push: +refs/heads/*:refs/heads/*\<newline>Push: +refs/tags/*:refs/tags/*\<newline>'')]"
    by (simp add: stage_writes(4) n t)
  from 1 n 3 4 5 6 7 show ?thesis by blast
qed

theorem scenario_registers_and_pushes_bb_witness:
  "repo_a = newRepo ''/cache'' \<lparr>Name = ''a'', ADO = ''ssh://src/a'', BitBucket = ''git@bb:org/a''\<rparr> \<and>
   fst (os_MkdirAll (filepath_Join [root repo_a, ''remotes'']) 511 (fresh_world (\<lambda>n. None))) = None \<and>
   (\<exists>a. new_events (fresh_world (\<lambda>n. None)) (snd (addRemote repo_a (fresh_world (\<lambda>n. None)))) =
     [MkdirAll ''/cache/a/remotes'' 511 None,
      WriteFile ''/cache/a/remotes/bb''
        ''URL: git@bb:org/a\<newline>Push: +refs/heads/*:refs/heads/*\<newline>Push: +refs/tags/*:refs/tags/*\<newline>''
        511 a]) \<and>
   starts (new_events (fresh_world (\<lambda>n. None)) (snd (push repo_a (fresh_world (\<lambda>n. None))))) =
     [\<lparr>Ctx = 30, Args = [''git'', ''push'', ''--mirror'', ''--force'', ''bb''],
       Dir = ''/cache/a''\<rparr>]"
proof -
  have h: "repo_a =
      newRepo ''/cache'' \<lparr>Name = ''a'', ADO = ''ssh://src/a'', BitBucket = ''git@bb:org/a''\<rparr>"
    by (simp add: repo_a_def newRepo_def path_defs)
  have m: "fst (os_MkdirAll (filepath_Join [root repo_a, ''remotes'']) 511
      (fresh_world (\<lambda>n. None))) = None"
    by (simp add: prim_defs fresh_world_def)
  have p: "filepath_Join [''/cache/a'', ''remotes''] = ''/cache/a/remotes''"
    "filepath_Join [''/cache/a'', ''remotes'', ''bb''] = ''/cache/a/remotes/bb''"
    "root repo_a = ''/cache/a''"
    by (simp_all add: repo_a_def path_defs)
  note T = scenario_registers_and_pushes_bb [OF h, of "fresh_world (\<lambda>n. None)"]
  from T m have "\<exists>a. new_events (fresh_world (\<lambda>n. None))
        (snd (addRemote repo_a (fresh_world (\<lambda>n. None)))) =
      [MkdirAll (filepath_Join [root repo_a, ''remotes'']) 511 None,
       WriteFile (filepath_Join [root repo_a, ''remotes'', ''bb''])
         ''URL: git@bb:org/a\<newline>Push: +refs/heads/*:refs/heads/*\<newline>Push: +refs/tags/*:refs/tags/*\<newline>''
         511 a]"
    by blast
  moreover from T have "starts (new_events (fresh_world (\<lambda>n. None))
        (snd (push repo_a (fresh_world (\<lambda>n. None))))) =
      [\<lparr>Ctx = 30, Args = [''git'', ''push'', ''--mirror'', ''--force'', ''bb''],
        Dir = root repo_a\<rparr>]"
    by blast
  ultimately show ?thesis
    using h m by (simp add: p)
qed

section \<open>Local roots\<close>

text \<open>
  C9, as stated, fails: \<open>filepath.Join\<close> cleans its result, so the distinct names
  \<open>a\<close> and \<open>a/\<close> get the same local root.
\<close>

theorem distinct_names_may_share_a_root:
  "map name (build_repos ''/cache''
      [\<lparr>Name = ''a'', ADO = ''ssh://src/a'', BitBucket = ''git@bb:org/a''\<rparr>,
       \<lparr>Name = ''a/'', ADO = ''ssh://src/b'', BitBucket = ''git@bb:org/b''\<rparr>])
     = [''a'', ''a/''] \<and>
   map root (build_repos ''/cache''
      [\<lparr>Name = ''a'', ADO = ''ssh://src/a'', BitBucket = ''git@bb:org/a''\<rparr>,
       \<lparr>Name = ''a/'', ADO = ''ssh://src/b'', BitBucket = ''git@bb:org/b''\<rparr>])
     = [''/cache/a'', ''/cache/a'']"
  by (simp add: build_repos_def newRepo_def path_defs)

text \<open>
  C9, amended. Every descriptor that \<open>main\<close> builds has the local root
  \<open>filepath.Join(cacheDir, name)\<close>, and two descriptors of one run whose names are
  distinct plain names (relative paths of elements other than \<open>.\<close> and \<open>..\<close>, with no
  empty element) have distinct local roots.
\<close>

theorem local_root_joined_and_distinct_for_plain_names:
  assumes "r1 \<in> set (build_repos cacheDir rs)" and "r2 \<in> set (build_repos cacheDir rs)"
  shows "root r1 = filepath_Join [cacheDir, name r1] \<and>
         root r2 = filepath_Join [cacheDir, name r2] \<and>
         (plain_name (name r1) \<and> plain_name (name r2) \<and> name r1 \<noteq> name r2
            \<longrightarrow> root r1 \<noteq> root r2)"
proof -
  have 1: "root r1 = filepath_Join [cacheDir, name r1]"
    using assms(1) by (auto simp: build_repos_def newRepo_def)
  have 2: "root r2 = filepath_Join [cacheDir, name r2]"
    using assms(2) by (auto simp: build_repos_def newRepo_def)
  show ?thesis
    using 1 2 Join_plain_inj [of "name r1" "name r2" cacheDir] by auto
qed

theorem local_root_joined_and_distinct_for_plain_names_witness:
  "newRepo ''/cache'' \<lparr>Name = ''a'', ADO = ''ssh://src/a'', BitBucket = ''git@bb:org/a''\<rparr>
     \<in> set (build_repos ''/cache''
         [\<lparr>Name = ''a'', ADO = ''ssh://src/a'', BitBucket = ''git@bb:org/a''\<rparr>,
          \<lparr>Name = ''org/b'', ADO = ''ssh://src/b'', BitBucket = ''git@bb:org/b''\<rparr>]) \<and>
   newRepo ''/cache'' \<lparr>Name = ''org/b'', ADO = ''ssh://src/b'', BitBucket = ''git@bb:org/b''\<rparr>
     \<in> set (build_repos ''/cache''
         [\<lparr>Name = ''a'', ADO = ''ssh://src/a'', BitBucket = ''git@bb:org/a''\<rparr>,
          \<lparr>Name = ''org/b'', ADO = ''ssh://src/b'', BitBucket = ''git@bb:org/b''\<rparr>]) \<and>
   plain_name ''a'' \<and> plain_name ''org/b'' \<and>
   root (newRepo ''/cache'' \<lparr>Name = ''a'', ADO = ''ssh://src/a'', BitBucket = ''git@bb:org/a''\<rparr>)
     \<noteq> root (newRepo ''/cache''
          \<lparr>Name = ''org/b'', ADO = ''ssh://src/b'', BitBucket = ''git@bb:org/b''\<rparr>)"
proof -
  let ?A = "\<lparr>Name = ''a'', ADO = ''ssh://src/a'', BitBucket = ''git@bb:org/a''\<rparr>"
  let ?B = "\<lparr>Name = ''org/b'', ADO = ''ssh://src/b'', BitBucket = ''git@bb:org/b''\<rparr>"
  have h1: "newRepo ''/cache'' ?A \<in> set (build_repos ''/cache'' [?A, ?B])"
    by (simp add: build_repos_def)
  have h2: "newRepo ''/cache'' ?B \<in> set (build_repos ''/cache'' [?A, ?B])"
    by (simp add: build_repos_def)
  have p: "plain_name ''a''" "plain_name ''org/b''"
    by (simp_all add: plain_name_def simple_name_def)
  have n: "name (newRepo ''/cache'' ?A) = ''a''" "name (newRepo ''/cache'' ?B) = ''org/b''"
    by (simp_all add: newRepo_def)
  have d: "name (newRepo ''/cache'' ?A) \<noteq> name (newRepo ''/cache'' ?B)"
    by (simp add: n)
  from local_root_joined_and_distinct_for_plain_names [OF h1 h2] p d
  have "root (newRepo ''/cache'' ?A) \<noteq> root (newRepo ''/cache'' ?B)"
    unfolding n by blast
  with h1 h2 p show ?thesis by blast
qed

section \<open>Dispatch\<close>

text \<open>
  What holds of every schedule: each descriptor is in exactly one place (still to be sent,
  with a worker, or done), so none is dropped and none is handed out twice; at most five
  loop bodies are under way; and \<open>initRepos\<close> has returned only when every descriptor
  has been received by a worker.
\<close>

lemma concat_map_update:
  "i < length ws \<Longrightarrow>
   mset (concat (map f (ws[i := y]))) + mset (f (ws ! i)) = mset (concat (map f ws)) + mset (f y)"
proof (induction ws arbitrary: i)
  case Nil
  then show ?case by simp
next
  case (Cons w ws)
  then show ?case by (cases i) auto
qed

lemma in_flight_update:
  assumes "i < length ws"
  shows "mset (concat (map (\<lambda>x. case x of Running r \<Rightarrow> [r] | _ \<Rightarrow> []) (ws[i := y]))) +
           mset (case ws ! i of Running r \<Rightarrow> [r] | _ \<Rightarrow> []) =
         mset (concat (map (\<lambda>x. case x of Running r \<Rightarrow> [r] | _ \<Rightarrow> []) ws)) +
           mset (case y of Running r \<Rightarrow> [r] | _ \<Rightarrow> [])"
  using assms by (rule concat_map_update)

lemma in_flight_length: "length (in_flight s) \<le> length (workers s)"
proof -
  have "length (concat (map (\<lambda>x. case x of Running r \<Rightarrow> [r] | _ \<Rightarrow> []) ws)) \<le> length ws" for ws
    by (induction ws) (auto split: worker.splits)
  then show ?thesis by (simp add: in_flight_def)
qed

lemma step_preserves:
  assumes "step a s = Some s1"
  shows "mset (pending s1) + mset (in_flight s1) + mset (completed s1) =
         mset (pending s) + mset (in_flight s) + mset (completed s)"
    and "length (workers s1) = length (workers s)"
    and "returned s \<longrightarrow> pending s = [] \<Longrightarrow> returned s1 \<longrightarrow> pending s1 = []"
proof -
  show "length (workers s1) = length (workers s)"
    using assms by (cases a) (auto split: list.splits if_splits worker.splits)
  show "returned s1 \<longrightarrow> pending s1 = []" if "returned s \<longrightarrow> pending s = []"
    using assms that by (cases a) (auto split: list.splits if_splits worker.splits)
  show "mset (pending s1) + mset (in_flight s1) + mset (completed s1) =
         mset (pending s) + mset (in_flight s) + mset (completed s)"
  proof (cases a)
    case (Handoff i)
    with assms obtain r rs where p: "pending s = r # rs" "i < length (workers s)"
      "workers s ! i = Receiving" "s1 = s\<lparr>pending := rs, workers := (workers s)[i := Running r]\<rparr>"
      by (auto split: list.splits if_splits)
    from in_flight_update [OF p(2), of "Running r"] p(3)
    have "mset (in_flight s1) = mset (in_flight s) + {#r#}"
      by (simp add: in_flight_def p(4))
    then show ?thesis by (simp add: p)
  next
    case (Finish i)
    with assms obtain r where p: "i < length (workers s)" "workers s ! i = Running r"
      "s1 = s\<lparr>workers := (workers s)[i := Receiving], completed := completed s @ [r]\<rparr>"
      by (auto split: if_splits worker.splits)
    from in_flight_update [OF p(1), of Receiving] p(2)
    have "mset (in_flight s1) + {#r#} = mset (in_flight s)"
      by (simp add: in_flight_def p(3))
    then show ?thesis by (auto simp: p(3))
  next
    case Close
    with assms show ?thesis by (auto simp: in_flight_def split: if_splits)
  next
    case (Exit i)
    with assms have p: "i < length (workers s)" "workers s ! i = Receiving"
      "s1 = s\<lparr>workers := (workers s)[i := Exited]\<rparr>"
      by (auto split: if_splits)
    from in_flight_update [OF p(1), of Exited] p(2)
    have "mset (in_flight s1) = mset (in_flight s)"
      by (simp add: in_flight_def p(3))
    then show ?thesis by (simp add: p(3))
  qed
qed

lemma run_preserves:
  assumes "run as s = Some s1"
  shows "mset (pending s1) + mset (in_flight s1) + mset (completed s1) =
         mset (pending s) + mset (in_flight s) + mset (completed s) \<and>
         length (workers s1) = length (workers s) \<and>
         ((returned s \<longrightarrow> pending s = []) \<longrightarrow> (returned s1 \<longrightarrow> pending s1 = []))"
  using assms
proof (induction as arbitrary: s)
  case Nil
  then show ?case by simp
next
  case (Cons a as)
  then obtain s2 where s2: "step a s = Some s2" "run as s2 = Some s1"
    by (auto split: option.splits)
  from Cons.IH [OF s2(2)] step_preserves [OF s2(1)] show ?case by auto
qed

lemma initRepos_dispatch:
  assumes "run as (initRepos_start rs) = Some s"
  shows "mset (pending s) + mset (in_flight s) + mset (completed s) = mset rs"
    and "length (in_flight s) \<le> 5"
    and "returned s \<Longrightarrow> pending s = []"
proof -
  note r = run_preserves [OF assms]
  have i: "in_flight (initRepos_start rs) = []"
    by (simp add: in_flight_def initRepos_start_def)
  show "mset (pending s) + mset (in_flight s) + mset (completed s) = mset rs"
    using r by (simp add: i) (simp add: initRepos_start_def)
  show "length (in_flight s) \<le> 5"
    using r in_flight_length [of s] by (simp add: initRepos_start_def)
  show "pending s = []" if "returned s"
    using r that by (simp add: initRepos_start_def)
qed

text \<open>
  C2. The claim asks that the dispatcher returns only after all the procedures have
  completed. With one descriptor, worker 0 receives it and \<open>initRepos\<close> closes the
  channel and returns: the loop body of worker 0 is still under way and nothing has
  completed. Nothing in \<open>initRepos\<close> or in \<open>main\<close> waits for the workers.
\<close>

theorem initRepos_returns_before_completion:
  "run [Handoff 0, Close] (initRepos_start [repo_a]) =
     Some \<lparr>pending = [], returned = True,
           workers = [Running repo_a, Receiving, Receiving, Receiving, Receiving],
           completed = []\<rparr>"
proof -
  have five: "replicate 5 Receiving = [Receiving, Receiving, Receiving, Receiving, Receiving]"
    by (simp add: numeral_eq_Suc)
  show ?thesis
    by (simp add: initRepos_start_def five)
qed

end
